theory Spec2Isabelle
  imports Complex_Main "HOL-Library.Multiset"
begin

section \<open>Data model\<close>

text \<open>
  The program is one script, \<open>src/app.py\<close>: it fetches a JSON value, rewrites the SQLite
  table \<open>users\<close> with its elements, reads the table back into a data frame, derives two
  columns and computes a few statistics from the frame.

  A Python text is modelled as a \<open>string\<close> in which every \<open>char\<close> stands for one code
  point below 256, so that \<open>length\<close> is Python's \<open>len\<close>. Python's \<open>None\<close> (a missing JSON
  key read with \<open>u.get\<close>, an SQL \<open>NULL\<close>) and the missing value of a column are \<open>None\<close> of
  an option type.

  A fetched object is read with \<open>u.get('id')\<close>, ..., \<open>u.get('website')\<close> only; the model
  keeps these six values, an integer or \<open>None\<close> for \<open>id\<close> and a text or \<open>None\<close> for the
  five others.
\<close>

record user =
  j_id :: "int option"
  j_name :: "string option"
  j_username :: "string option"
  j_email :: "string option"
  j_phone :: "string option"
  j_website :: "string option"

text \<open>
  What \<open>response.json()\<close> returns. The script iterates over it and calls \<open>get\<close> on every
  element: an element is an object, which has \<open>get\<close>, or any other value, which has not.
  Beside an array the value can be an object (iterating it yields its keys, texts), a text
  (iterating it yields its characters), or a number, a truth value or \<open>null\<close>, which cannot
  be iterated.
\<close>

datatype item = Obj user | Not_obj

datatype json = Array "item list" | Object "string list" | Text string | Scalar

definition records :: "user list \<Rightarrow> json" where
  "records b = Array (map Obj b)"

text \<open>
  A row of the table \<open>users (id INTEGER PRIMARY KEY, name TEXT, username TEXT, email TEXT,
  phone TEXT, website TEXT)\<close>. The column \<open>id\<close> is the rowid of the table and is never
  \<open>NULL\<close> in a stored row.
\<close>

record row =
  rid :: int
  name :: "string option"
  username :: "string option"
  email :: "string option"
  phone :: "string option"
  website :: "string option"

text \<open>A row of the data frame after the two derived columns have been added.\<close>

record enriched = row +
  name_length :: nat
  email_domain :: "string option"

text \<open>Every exception the script can raise past its own \<open>except\<close> clause.\<close>

datatype error =
    TypeError
  | AttributeError
  | OverflowError
  | Database_full
  | No_such_table

text \<open>
  The repository does not pin the version of pandas, and two lines of the script depend on
  it. \<open>Pandas2\<close> stands for the versions before 3, \<open>Pandas3\<close> for the versions from 3 on,
  whose text columns have a string type of their own.
\<close>

datatype pandas = Pandas2 | Pandas3

section \<open>Derived columns\<close>

text \<open>
  \<open>astype(str)\<close> on a column read from the table. A text stays as it is. Before pandas 3 a
  missing cell becomes the four-letter text \<open>None\<close>; from pandas 3 on it stays missing.
\<close>

definition astype_str :: "pandas \<Rightarrow> string option \<Rightarrow> string option" where
  "astype_str v cell =
     (case cell of
        Some s \<Rightarrow> Some s
      | None \<Rightarrow> (case v of Pandas2 \<Rightarrow> Some ''None'' | Pandas3 \<Rightarrow> None))"

text \<open>
  Python's \<open>len\<close> and \<open>str\<close> on a cell of such a column. The missing value is a float:
  it has no length, and its text is \<open>nan\<close>.
\<close>

definition py_len :: "string option \<Rightarrow> error + nat" where
  "py_len cell = (case cell of Some s \<Rightarrow> Inr (length s) | None \<Rightarrow> Inl TypeError)"

definition py_str :: "string option \<Rightarrow> string" where
  "py_str cell = (case cell of Some s \<Rightarrow> s | None \<Rightarrow> ''nan'')"

text \<open>\<open>column.apply(f)\<close>: \<open>f\<close> on every cell in turn; the first exception ends it.\<close>

fun series_apply :: "('a \<Rightarrow> error + 'b) \<Rightarrow> 'a list \<Rightarrow> error + 'b list" where
  "series_apply f [] = Inr []"
| "series_apply f (c # cs) =
     (case f c of
        Inl e \<Rightarrow> Inl e
      | Inr y \<Rightarrow> (case series_apply f cs of Inl e \<Rightarrow> Inl e | Inr ys \<Rightarrow> Inr (y # ys)))"

text \<open>\<open>x.split(sep)\<close> for a separator of one character: the pieces between the separators.\<close>

fun str_split :: "char \<Rightarrow> string \<Rightarrow> string list" where
  "str_split sep [] = [[]]"
| "str_split sep (c # cs) =
     (if c = sep then [] # str_split sep cs
      else (case str_split sep cs of
              [] \<Rightarrow> [[c]]
            | p # ps \<Rightarrow> (c # p) # ps))"

text \<open>
  \<open>str.lower\<close> on the code points below 256: the letters \<open>A\<close> to \<open>Z\<close> and the upper-case
  letters of Latin-1 (192 to 222, without the multiplication sign 215) move up by 32.
\<close>

definition lower_char :: "char \<Rightarrow> char" where
  "lower_char c =
     (let n = (of_char c :: nat)
      in if (65 \<le> n \<and> n \<le> 90) \<or> (192 \<le> n \<and> n \<le> 222 \<and> n \<noteq> 215)
         then char_of (n + 32) else c)"

definition lower :: "string \<Rightarrow> string" where
  "lower s = map lower_char s"

text \<open>
  The function of line 132, \<open>lambda x: x.split('@')[-1].lower() if '@' in str(x) else None\<close>.
  The test is made on \<open>str(x)\<close> and the split on \<open>x\<close> itself; for a missing \<open>x\<close> the test
  fails, since \<open>nan\<close> has no \<open>@\<close>, and the split is not reached.
\<close>

definition domain_of_cell :: "string option \<Rightarrow> string option" where
  "domain_of_cell x =
     (if CHR ''@'' \<in> set (py_str x)
      then (case x of
              Some s \<Rightarrow> Some (lower (last (str_split (CHR ''@'') s)))
            | None \<Rightarrow> None)
      else None)"

text \<open>
  Line 131: \<open>df['name'].astype(str).apply(len)\<close>.
  Line 132: \<open>df['email'].astype(str).apply(lambda x: ...)\<close>.
\<close>

definition name_length_column :: "pandas \<Rightarrow> row list \<Rightarrow> error + nat list" where
  "name_length_column v df = series_apply py_len (map (\<lambda>r. astype_str v (name r)) df)"

definition email_domain_column :: "pandas \<Rightarrow> row list \<Rightarrow> string option list" where
  "email_domain_column v df = map (\<lambda>r. domain_of_cell (astype_str v (email r))) df"

definition add_columns :: "row \<Rightarrow> nat \<Rightarrow> string option \<Rightarrow> enriched" where
  "add_columns r n d =
     \<lparr> rid = rid r, name = name r, username = username r, email = email r,
       phone = phone r, website = website r, name_length = n, email_domain = d \<rparr>"

text \<open>Lines 131 and 132 in their order: an exception at line 131 ends the script there.\<close>

definition enrich :: "pandas \<Rightarrow> row list \<Rightarrow> error + enriched list" where
  "enrich v df =
     (case name_length_column v df of
        Inl e \<Rightarrow> Inl e
      | Inr lengths \<Rightarrow>
          Inr (map (\<lambda>(r, n, d). add_columns r n d)
                 (zip df (zip lengths (email_domain_column v df)))))"

text \<open>The words of the specification: the text after the last occurrence of a character.\<close>

definition after_last :: "char \<Rightarrow> string \<Rightarrow> string" where
  "after_last sep s = rev (takeWhile (\<lambda>c. c \<noteq> sep) (rev s))"

section \<open>Statistics over the data frame\<close>

text \<open>
  The reductions of pandas used by the script skip missing values (\<open>dropna=True\<close> is the
  default of \<open>nunique\<close> and of \<open>value_counts\<close>); the script passes no argument to them.
\<close>

fun dropna :: "'a option list \<Rightarrow> 'a list" where
  "dropna [] = []"
| "dropna (None # col) = dropna col"
| "dropna (Some x # col) = x # dropna col"

text \<open>The distinct values of a column, each at its first appearance.\<close>

definition unique :: "'a list \<Rightarrow> 'a list" where
  "unique xs = rev (remdups (rev xs))"

text \<open>Line 143: \<open>len(df)\<close>. Line 150: \<open>df['email_domain'].nunique()\<close>.\<close>

definition total_count :: "enriched list \<Rightarrow> nat" where
  "total_count df = length df"

definition nunique :: "'a option list \<Rightarrow> nat" where
  "nunique col = length (unique (dropna col))"

definition distinct_domain_count :: "enriched list \<Rightarrow> nat" where
  "distinct_domain_count df = nunique (map email_domain df)"

text \<open>
  Line 197: \<open>df['email_domain'].value_counts()\<close>, the mapping from each value that is present
  to the number of its occurrences, as an association list. pandas orders its entries by
  descending count; the entries are listed here by first appearance, and nothing below
  depends on their order.
\<close>

definition value_counts :: "'a option list \<Rightarrow> ('a \<times> nat) list" where
  "value_counts col = (let xs = dropna col in map (\<lambda>d. (d, count_list xs d)) (unique xs))"

definition domain_counts :: "enriched list \<Rightarrow> (string \<times> nat) list" where
  "domain_counts df = value_counts (map email_domain df)"

text \<open>
  Line 157: \<open>df['name_length'].mean()\<close>. On a column with rows it is the quotient, taken
  exactly here. On the empty frame the column of line 131 has no cell to take a type from
  and keeps the type of the text column it came from: before pandas 3 that is the object
  type, whose mean is the not-a-number value (\<open>None\<close>); from pandas 3 on it is the string
  type, and its mean raises \<open>TypeError\<close>.
\<close>

definition mean :: "pandas \<Rightarrow> nat list \<Rightarrow> error + rat option" where
  "mean v col =
     (if col = [] then (case v of Pandas2 \<Rightarrow> Inr None | Pandas3 \<Rightarrow> Inl TypeError)
      else Inr (Some (of_nat (sum_list col) / of_nat (length col))))"

text \<open>Line 158: \<open>df['name_length'].max()\<close>; the missing value on an empty column.\<close>

definition max_of :: "nat list \<Rightarrow> nat option" where
  "max_of col = (case col of [] \<Rightarrow> None | x # xs \<Rightarrow> Some (fold max xs x))"

definition mean_name_length :: "pandas \<Rightarrow> enriched list \<Rightarrow> error + rat option" where
  "mean_name_length v df = mean v (map name_length df)"

definition max_name_length :: "enriched list \<Rightarrow> nat option" where
  "max_name_length df = max_of (map name_length df)"

subsection \<open>The ten longest names\<close>

text \<open>
  Line 258: \<open>df.sort_values('name_length', ascending=False).head(10)\<close>. No \<open>kind\<close> is passed,
  so pandas sorts with its default kind \<open>quicksort\<close>, which numpy does not promise to be
  stable and whose choice among equal keys depends on the numpy build. The index sort is
  therefore a parameter \<open>argsort\<close>, from a key column to the positions in sorted order, and
  \<open>is_argsort\<close> is what every sort kind guarantees of it: the result holds each position
  once and lists the keys in ascending order.

  \<open>nargsort\<close> is pandas' way to a descending order: reverse the keys and their positions,
  sort ascending, reverse the result.
\<close>

definition is_argsort :: "nat list \<Rightarrow> nat list \<Rightarrow> bool" where
  "is_argsort keys ix \<longleftrightarrow>
     sort ix = [0..<length keys] \<and> sorted (map (\<lambda>i. keys ! i) ix)"

definition nargsort :: "(nat list \<Rightarrow> nat list) \<Rightarrow> bool \<Rightarrow> nat list \<Rightarrow> nat list" where
  "nargsort argsort ascending items =
     (let idx = [0..<length items];
          non_nans = (if ascending then items else rev items);
          non_nan_idx = (if ascending then idx else rev idx);
          indexer = map (\<lambda>i. non_nan_idx ! i) (argsort non_nans)
      in if ascending then indexer else rev indexer)"

definition sort_values :: "(nat list \<Rightarrow> nat list) \<Rightarrow> bool \<Rightarrow> enriched list \<Rightarrow> enriched list" where
  "sort_values argsort ascending df =
     map (\<lambda>i. df ! i) (nargsort argsort ascending (map name_length df))"

definition head :: "nat \<Rightarrow> 'a list \<Rightarrow> 'a list" where
  "head n df = take n df"

definition top_names :: "(nat list \<Rightarrow> nat list) \<Rightarrow> enriched list \<Rightarrow> enriched list" where
  "top_names argsort df = head 10 (sort_values argsort False df)"

text \<open>The stable index sort, which keeps equal keys in input order.\<close>

definition stable_argsort :: "nat list \<Rightarrow> nat list" where
  "stable_argsort keys = sort_key (\<lambda>i. keys ! i) [0..<length keys]"

text \<open>
  The words of the specification: the records sorted by \<open>name_length\<close> descending, ties in
  input order, cut to the first ten.
\<close>

definition spec_top_n :: "enriched list \<Rightarrow> enriched list" where
  "spec_top_n df = take 10 (rev (sort_key name_length (rev df)))"

section \<open>The table and the connection\<close>

text \<open>
  The table of a rowid table is a B-tree keyed by the rowid: its rows are kept, and read by
  a full scan, in ascending rowid order. \<open>None\<close> is a database without the table.

  \<open>disk\<close> is the committed content of the file, \<open>view\<close> what the open connection sees,
  \<open>in_txn\<close> whether that connection has an open transaction, \<open>open_conns\<close> the number of
  connections opened and not closed.
\<close>

type_synonym table = "row list"

record db =
  disk :: "table option"
  view :: "table option"
  in_txn :: bool
  open_conns :: nat

definition int64_ok :: "int \<Rightarrow> bool" where
  "int64_ok i \<longleftrightarrow> - (2 ^ 63) \<le> i \<and> i < 2 ^ 63"

definition mk_row :: "int \<Rightarrow> user \<Rightarrow> row" where
  "mk_row i u =
     \<lparr> rid = i, name = j_name u, username = j_username u, email = j_email u,
       phone = j_phone u, website = j_website u \<rparr>"

text \<open>Storing a row under its rowid; a row with the same rowid is replaced (\<open>OR REPLACE\<close>).\<close>

fun btree_insert :: "row \<Rightarrow> table \<Rightarrow> table" where
  "btree_insert r [] = [r]"
| "btree_insert r (x # xs) =
     (if rid r < rid x then r # x # xs
      else if rid r = rid x then r # xs
      else x # btree_insert r xs)"

text \<open>
  A \<open>NULL\<close> in the \<open>INTEGER PRIMARY KEY\<close> column gets the rowid 1 in an empty table and one more
  than the largest rowid otherwise. When the largest rowid is \<open>2^63 - 1\<close> the engine draws
  rowids at random until it finds one that is not in use, and gives up with the error
  "database or disk is full" after some draws. What this search returns on a table is the
  parameter \<open>random_rowid\<close>: a rowid, or \<open>None\<close> when the search gave up.
\<close>

definition new_rowid :: "(table \<Rightarrow> int option) \<Rightarrow> table \<Rightarrow> int option" where
  "new_rowid random_rowid t =
     (if t = [] then Some 1
      else if rid (last t) < 2 ^ 63 - 1 then Some (rid (last t) + 1)
      else random_rowid t)"

text \<open>
  Lines 111 to 116, one \<open>INSERT OR REPLACE\<close>. Binding a Python integer outside the 64-bit
  range raises \<open>OverflowError\<close>.
\<close>

definition insert_or_replace :: "(table \<Rightarrow> int option) \<Rightarrow> user \<Rightarrow> table \<Rightarrow> error + table" where
  "insert_or_replace random_rowid u t =
     (case j_id u of
        Some i \<Rightarrow> if int64_ok i then Inr (btree_insert (mk_row i u) t) else Inl OverflowError
      | None \<Rightarrow>
          (case new_rowid random_rowid t of
             Some i \<Rightarrow> Inr (btree_insert (mk_row i u) t)
           | None \<Rightarrow> Inl Database_full))"

definition connect :: "db \<Rightarrow> db" where
  "connect s = s\<lparr> view := disk s, in_txn := False, open_conns := Suc (open_conns s) \<rparr>"

text \<open>
  Python's \<open>sqlite3\<close> opens a transaction before an \<open>INSERT\<close> only; a \<open>DROP\<close> or \<open>CREATE\<close>
  outside a transaction is committed at once.
\<close>

definition autocommit :: "db \<Rightarrow> db" where
  "autocommit s = (if in_txn s then s else s\<lparr> disk := view s \<rparr>)"

definition drop_table_if_exists :: "db \<Rightarrow> db" where
  "drop_table_if_exists s = autocommit (s\<lparr> view := None \<rparr>)"

definition create_table_if_not_exists :: "db \<Rightarrow> db" where
  "create_table_if_not_exists s =
     autocommit (case view s of None \<Rightarrow> s\<lparr> view := Some [] \<rparr> | Some t \<Rightarrow> s)"

text \<open>
  \<open>cur.execute\<close> of the \<open>INSERT\<close>: the statement is compiled (which fails without the
  table), then the transaction is opened, then the values are bound and the statement
  runs. An exception in the last steps leaves the transaction open. The result is the
  exception, if any, and the state reached.
\<close>

definition execute_insert :: "(table \<Rightarrow> int option) \<Rightarrow> user \<Rightarrow> db \<Rightarrow> error option \<times> db" where
  "execute_insert random_rowid u s =
     (case view s of
        None \<Rightarrow> (Some No_such_table, s)
      | Some t \<Rightarrow>
          (case insert_or_replace random_rowid u t of
             Inl e \<Rightarrow> (Some e, s\<lparr> in_txn := True \<rparr>)
           | Inr t' \<Rightarrow> (None, s\<lparr> view := Some t', in_txn := True \<rparr>)))"

definition commit :: "db \<Rightarrow> db" where
  "commit s = s\<lparr> disk := view s, in_txn := False \<rparr>"

definition close :: "db \<Rightarrow> db" where
  "close s = s\<lparr> view := disk s, in_txn := False, open_conns := open_conns s - 1 \<rparr>"

text \<open>
  \<open>for u in users\<close>: the elements the loop visits, or the exception of a value that cannot
  be iterated.
\<close>

definition iterate :: "json \<Rightarrow> error + item list" where
  "iterate users =
     (case users of
        Array xs \<Rightarrow> Inr xs
      | Object keys \<Rightarrow> Inr (map (\<lambda>k. Not_obj) keys)
      | Text s \<Rightarrow> Inr (map (\<lambda>c. Not_obj) s)
      | Scalar \<Rightarrow> Inl TypeError)"

text \<open>
  The loop of lines 110 to 116. The arguments \<open>u.get(...)\<close> are evaluated before
  \<open>cur.execute\<close> is called, so an element without \<open>get\<close> raises \<open>AttributeError\<close> with the
  database untouched by this turn. An exception leaves the loop, and the script, at the
  statement that raised it: the result is the error and the state reached.
\<close>

fun insert_all :: "(table \<Rightarrow> int option) \<Rightarrow> item list \<Rightarrow> db \<Rightarrow> error option \<times> db" where
  "insert_all random_rowid [] s = (None, s)"
| "insert_all random_rowid (Not_obj # users) s = (Some AttributeError, s)"
| "insert_all random_rowid (Obj u # users) s =
     (case execute_insert random_rowid u s of
        (Some e, s') \<Rightarrow> (Some e, s')
      | (None, s') \<Rightarrow> insert_all random_rowid users s')"

text \<open>
  Lines 95 to 119. There is no \<open>try\<close> and no \<open>with\<close> around the statements: \<open>conn.commit()\<close>
  and \<open>conn.close()\<close> are reached only when every statement before them returned.
\<close>

definition replaceAll :: "(table \<Rightarrow> int option) \<Rightarrow> json \<Rightarrow> db \<Rightarrow> error option \<times> db" where
  "replaceAll random_rowid users s =
     (let conn = connect s;
          s1 = drop_table_if_exists conn;
          s2 = create_table_if_not_exists s1
      in case iterate users of
           Inl e \<Rightarrow> (Some e, s2)
         | Inr items \<Rightarrow>
             (case insert_all random_rowid items s2 of
                (Some e, s3) \<Rightarrow> (Some e, s3)
              | (None, s3) \<Rightarrow> (None, close (commit s3))))"

text \<open>Lines 124 to 126: \<open>SELECT * FROM users\<close> on a new connection.\<close>

definition loadAll :: "db \<Rightarrow> (error + table) \<times> db" where
  "loadAll s =
     (let conn = connect s
      in case view conn of
           None \<Rightarrow> (Inl No_such_table, conn)
         | Some t \<Rightarrow> (Inr t, close conn))"

definition user_of_row :: "row \<Rightarrow> user" where
  "user_of_row r =
     \<lparr> j_id = Some (rid r), j_name = name r, j_username = username r, j_email = email r,
       j_phone = phone r, j_website = website r \<rparr>"

section \<open>The run of the script\<close>

text \<open>
  Lines 81 to 90. The answer to \<open>requests.get\<close> is either a response, with its status code
  and a body that \<open>response.json()\<close> parses into a value or rejects, or an exception of the
  transport. The network is a function from the number of the request to its answer, and
  the run records how many requests it made. \<open>st.stop()\<close> ends the run: its exception is
  not an \<open>Exception\<close> and passes the \<open>except\<close> clause.

  The screen is the list of what the script has written: the page title (lines 62 to 70,
  before the request), an error message, the metrics of lines 140 to 159 one by one, and
  the charts and tables, which stand for everything lines 173 to 338 draw from the
  enriched frame. An exception that nothing catches ends the run as \<open>Raised\<close>; what is
  shown for it is not modelled.
\<close>

datatype body = Json json | Invalid string

datatype fetch_outcome = Response int body | RequestException string

datatype ui =
    Title
  | Error_status int
  | Error_connection string
  | Metric_total nat
  | Metric_domains nat
  | Metric_name "rat option" "nat option"
  | Charts "enriched list"

datatype ending = Stopped | Raised error | Completed

record run_result =
  ending :: ending
  screen :: "ui list"
  database :: db
  requests_made :: nat

text \<open>
  Lines 137 to the end, on the enriched frame: what they write, and how they end. The
  mean is computed for the third metric, after the first two have been written.
\<close>

definition render :: "pandas \<Rightarrow> enriched list \<Rightarrow> ending \<times> ui list" where
  "render v df =
     (let shown = [Metric_total (total_count df), Metric_domains (distinct_domain_count df)]
      in case mean_name_length v df of
           Inl e \<Rightarrow> (Raised e, shown)
         | Inr m \<Rightarrow> (Completed, shown @ [Metric_name m (max_name_length df), Charts df]))"

definition run ::
  "pandas \<Rightarrow> (table \<Rightarrow> int option) \<Rightarrow> (nat \<Rightarrow> fetch_outcome) \<Rightarrow> db \<Rightarrow> run_result" where
  "run v random_rowid net s =
     (case net 0 of
        RequestException msg \<Rightarrow>
          \<lparr> ending = Stopped, screen = [Title, Error_connection msg],
            database = s, requests_made = 1 \<rparr>
      | Response status_code b \<Rightarrow>
          if status_code \<noteq> 200 then
            \<lparr> ending = Stopped, screen = [Title, Error_status status_code],
              database = s, requests_made = 1 \<rparr>
          else
            (case b of
               Invalid msg \<Rightarrow>
                 \<lparr> ending = Stopped, screen = [Title, Error_connection msg],
                   database = s, requests_made = 1 \<rparr>
             | Json users \<Rightarrow>
                 (case replaceAll random_rowid users s of
                    (Some e, s1) \<Rightarrow>
                      \<lparr> ending = Raised e, screen = [Title],
                        database = s1, requests_made = 1 \<rparr>
                  | (None, s1) \<Rightarrow>
                      (case loadAll s1 of
                         (Inl e, s2) \<Rightarrow>
                           \<lparr> ending = Raised e, screen = [Title],
                             database = s2, requests_made = 1 \<rparr>
                       | (Inr df, s2) \<Rightarrow>
                           (case enrich v df of
                              Inl e \<Rightarrow>
                                \<lparr> ending = Raised e, screen = [Title],
                                  database = s2, requests_made = 1 \<rparr>
                            | Inr frame \<Rightarrow>
                                \<lparr> ending = fst (render v frame),
                                  screen = Title # snd (render v frame),
                                  database = s2, requests_made = 1 \<rparr>)))))"

section \<open>Example data\<close>

text \<open>
  The three users of the end-to-end scenario, and inputs at the edges: a row without a
  name, a row whose email has no \<open>@\<close>, two fetched objects with the same id, two without an id,
  an id one beyond the 64-bit range, a database that holds a row, and a search for a random rowid
  that finds none.
\<close>

definition mk_user :: "int \<Rightarrow> string \<Rightarrow> string \<Rightarrow> user" where
  "mk_user i n e =
     \<lparr> j_id = Some i, j_name = Some n, j_username = None, j_email = Some e,
       j_phone = None, j_website = None \<rparr>"

definition ann :: user where
  "ann = mk_user 1 ''Ann'' ''a@x.com''"

definition bob :: user where
  "bob = mk_user 2 ''Bob Bobson'' ''b@y.com''"

definition cy :: user where
  "cy = mk_user 3 ''Cy'' ''c@x.com''"

definition three :: "enriched list" where
  "three =
     [add_columns (mk_row 1 ann) 3 (Some ''x.com''),
      add_columns (mk_row 2 bob) 10 (Some ''y.com''),
      add_columns (mk_row 3 cy) 2 (Some ''x.com'')]"

definition empty_db :: db where
  "empty_db = \<lparr> disk = None, view = None, in_txn = False, open_conns = 0 \<rparr>"

definition ann_db :: db where
  "ann_db =
     \<lparr> disk = Some [mk_row 1 ann], view = Some [mk_row 1 ann], in_txn = False,
       open_conns = 0 \<rparr>"

definition no_random :: "table \<Rightarrow> int option" where
  "no_random t = None"

definition no_name :: row where
  "no_name =
     \<lparr> rid = 1, name = None, username = None, email = None, phone = None, website = None \<rparr>"

definition no_at :: row where
  "no_at =
     \<lparr> rid = 1, name = Some ''Ann'', username = None, email = Some ''ann.example.org'',
       phone = None, website = None \<rparr>"

definition nameless :: "user list" where
  "nameless =
     [\<lparr> j_id = None, j_name = Some ''Ann'', j_username = None, j_email = None,
        j_phone = None, j_website = None \<rparr>,
      \<lparr> j_id = None, j_name = Some ''Bob'', j_username = None, j_email = None,
        j_phone = None, j_website = None \<rparr>]"

definition twins :: "user list" where
  "twins = [mk_user 1 ''Ann'' ''a@x.com'', mk_user 1 ''Bob'' ''b@y.com'']"

definition too_big :: user where
  "too_big = mk_user (2 ^ 63) ''Ann'' ''a@x.com''"

lemmas example_defs =
  mk_user_def ann_def bob_def cy_def empty_db_def mk_row_def

lemmas enrich_defs =
  enrich_def name_length_column_def email_domain_column_def add_columns_def
  astype_str_def py_len_def py_str_def domain_of_cell_def lower_def lower_char_def

lemmas db_defs =
  replaceAll_def records_def iterate_def loadAll_def connect_def drop_table_if_exists_def
  create_table_if_not_exists_def autocommit_def execute_insert_def insert_or_replace_def
  int64_ok_def commit_def close_def new_rowid_def

section \<open>Facts about the derived columns\<close>

lemma series_apply_py_len:
  "series_apply py_len cells =
     (if None \<in> set cells then Inl TypeError else Inr (map (\<lambda>c. length (the c)) cells))"
  by (induction cells) (auto simp: py_len_def split: option.splits)

lemma zip_columns:
  "zip df (zip (map f df) (map g df)) = map (\<lambda>r. (r, f r, g r)) df"
  by (induction df) auto

lemma enrich_eq:
  "enrich v df =
     (if \<exists>r\<in>set df. astype_str v (name r) = None then Inl TypeError
      else Inr (map (\<lambda>r. add_columns r (length (the (astype_str v (name r))))
                            (domain_of_cell (astype_str v (email r)))) df))"
proof -
  have "(None \<in> set (map (\<lambda>r. astype_str v (name r)) df)) = (\<exists>r\<in>set df. astype_str v (name r) = None)"
    by (force simp: image_iff)
  then show ?thesis
    by (simp add: enrich_def name_length_column_def email_domain_column_def series_apply_py_len
        zip_columns comp_def)
qed

lemma astype_str_missing: "astype_str v c = None \<longleftrightarrow> v = Pandas3 \<and> c = None"
  by (cases v; cases c) (simp_all add: astype_str_def)

lemma enrich_Inr:
  assumes "enrich v df = Inr frame"
  shows "map email_domain frame = map (\<lambda>r. domain_of_cell (astype_str v (email r))) df"
    and "map name_length frame = map (\<lambda>r. length (the (astype_str v (name r)))) df"
    and "length frame = length df"
  using assms by (auto simp: enrich_eq add_columns_def split: if_splits)

lemma enrich_Pandas2:
  "\<exists>frame. enrich Pandas2 df = Inr frame"
  by (simp add: enrich_eq astype_str_missing)

lemma enrich_named:
  "\<forall>r\<in>set df. name r \<noteq> None \<Longrightarrow> \<exists>frame. enrich v df = Inr frame"
  by (auto simp: enrich_eq astype_str_missing)

lemma domain_of_cell_astype:
  "domain_of_cell (astype_str v c) =
     (case c of
        None \<Rightarrow> None
      | Some e \<Rightarrow> if CHR ''@'' \<in> set e then Some (lower (last (str_split (CHR ''@'') e))) else None)"
  by (cases v; cases c) (simp_all add: domain_of_cell_def astype_str_def py_str_def)

lemma domain_of_cell_present:
  "(\<exists>d. domain_of_cell (astype_str v c) = Some d) \<longleftrightarrow> (\<exists>e. c = Some e \<and> CHR ''@'' \<in> set e)"
  by (cases c) (simp_all add: domain_of_cell_astype)

section \<open>Splitting at a separator\<close>

lemma str_split_ne: "str_split sep s \<noteq> []"
  by (induction s) (auto split: list.splits)

lemma str_split_single: "tl (str_split sep s) = [] \<longleftrightarrow> sep \<notin> set s"
  by (induction s) (auto split: list.splits simp: str_split_ne)

lemma after_last_none: "sep \<notin> set cs \<Longrightarrow> after_last sep cs = cs"
proof -
  assume "sep \<notin> set cs"
  then have "takeWhile (\<lambda>c. c \<noteq> sep) (rev cs) = rev cs"
    by (intro takeWhile_eq_all_conv[THEN iffD2]) auto
  then show ?thesis unfolding after_last_def by (simp only: rev_rev_ident)
qed

lemma after_last_Cons:
  "after_last sep (c # cs) =
     (if sep \<in> set cs then after_last sep cs else if c = sep then cs else c # cs)"
  by (auto simp: after_last_def takeWhile_append takeWhile_eq_all_conv[THEN iffD2])

lemma last_str_split: "last (str_split sep s) = after_last sep s"
proof (induction s)
  case Nil
  show ?case by (simp add: after_last_def)
next
  case (Cons c cs)
  obtain p ps where sp: "str_split sep cs = p # ps"
    using str_split_ne[of sep cs] by (cases "str_split sep cs") auto
  have single: "ps = [] \<longleftrightarrow> sep \<notin> set cs"
    using str_split_single[of sep cs] sp by simp
  show ?case
  proof (cases "sep \<in> set cs")
    case True
    with single have "ps \<noteq> []" by simp
    with Cons sp True show ?thesis by (simp add: after_last_Cons)
  next
    case False
    with single have ps: "ps = []" by simp
    with Cons sp ps False show ?thesis by (simp add: after_last_Cons after_last_none)
  qed
qed

section \<open>Counting over a column\<close>

lemma dropna_filter: "map Some (dropna col) = filter (\<lambda>v. v \<noteq> None) col"
  by (induction col rule: dropna.induct) auto

lemma length_dropna: "length (dropna col) = length (filter (\<lambda>v. v \<noteq> None) col)"
  using dropna_filter[of col] by (metis length_map)

lemma Some_dropna: "Some ` set (dropna col) = set col - {None}"
  by (induction col rule: dropna.induct) auto

lemma set_unique: "set (unique xs) = set xs"
  by (simp add: unique_def)

lemma distinct_unique: "distinct (unique xs)"
  by (simp add: unique_def)

lemma sum_value_counts: "sum_list (map snd (value_counts col)) = length (dropna col)"
proof -
  have "sum_list (map snd (value_counts col)) =
          sum_list (map (count_list (dropna col)) (unique (dropna col)))"
    by (simp add: value_counts_def Let_def comp_def)
  also have "\<dots> = sum (count_list (dropna col)) (set (dropna col))"
    using sum_list_distinct_conv_sum_set[OF distinct_unique, of "count_list (dropna col)" "dropna col"]
    by (simp add: set_unique)
  also have "\<dots> = length (dropna col)"
    by (rule sum_count_set) auto
  finally show ?thesis .
qed

lemma sum_domain_counts:
  assumes "enrich v rows = Inr df"
  shows "sum_list (map snd (domain_counts df)) =
           length (filter (\<lambda>r. \<exists>e. email r = Some e \<and> CHR ''@'' \<in> set e) rows)"
proof -
  have "sum_list (map snd (domain_counts df)) =
          length (filter (\<lambda>c. c \<noteq> None) (map (\<lambda>r. domain_of_cell (astype_str v (email r))) rows))"
    by (simp add: domain_counts_def sum_value_counts length_dropna enrich_Inr(1)[OF assms])
  also have "\<dots> = length (filter (\<lambda>r. \<exists>d. domain_of_cell (astype_str v (email r)) = Some d) rows)"
    by (simp add: filter_map comp_def)
  finally show ?thesis by (simp add: domain_of_cell_present)
qed

lemma enrich_three:
  "enrich v [mk_row 1 ann, mk_row 2 bob, mk_row 3 cy] = Inr three"
  by (cases v) (simp_all add: three_def enrich_defs example_defs series_apply.simps)

lemma enrich_no_at: "enrich v [no_at] = Inr [add_columns no_at 3 None]"
  by (cases v) (simp_all add: no_at_def enrich_defs)

section \<open>Sorting by positions\<close>

lemma is_argsort_mset: "is_argsort keys ix \<Longrightarrow> mset ix = mset [0..<length keys]"
  unfolding is_argsort_def by (metis mset_sort)

lemma is_argsort_bound: "is_argsort keys ix \<Longrightarrow> i \<in> set ix \<Longrightarrow> i < length keys"
  using is_argsort_mset[of keys ix] by (metis atLeastLessThan_iff set_mset_mset set_upt)

lemma rev_upt_nth: "i < length df \<Longrightarrow> df ! (rev [0..<length df] ! i) = rev df ! i"
  by (simp add: rev_nth)

lemma rev_key_nth:
  "i < length df \<Longrightarrow> name_length (rev df ! i) = rev (map name_length df) ! i"
  by (simp add: rev_nth)

text \<open>The descending sort reads the reversed frame at the positions the index sort returns.\<close>

lemma sort_values_descending:
  assumes "is_argsort (rev (map name_length df)) (argsort (rev (map name_length df)))"
  shows "sort_values argsort False df =
           rev (map (\<lambda>i. rev df ! i) (argsort (rev (map name_length df))))"
proof -
  let ?ix = "argsort (rev (map name_length df))"
  have bound: "\<And>i. i \<in> set ?ix \<Longrightarrow> i < length df"
    using is_argsort_bound[of "rev (map name_length df)" ?ix] assms by simp
  have "map (\<lambda>i. df ! i) (map (\<lambda>i. rev [0..<length df] ! i) ?ix) = map (\<lambda>i. rev df ! i) ?ix"
    using bound by (simp add: rev_upt_nth)
  then show ?thesis
    by (simp add: sort_values_def nargsort_def Let_def rev_map)
qed

lemma mset_sort_values:
  assumes "is_argsort (rev (map name_length df)) (argsort (rev (map name_length df)))"
  shows "mset (sort_values argsort False df) = mset df"
proof -
  let ?ix = "argsort (rev (map name_length df))"
  have "mset (map (\<lambda>i. rev df ! i) ?ix) = image_mset (\<lambda>i. rev df ! i) (mset ?ix)" by simp
  also have "\<dots> = image_mset (\<lambda>i. rev df ! i) (mset [0..<length (rev df)])"
    using is_argsort_mset[of "rev (map name_length df)" ?ix] assms by simp
  also have "\<dots> = mset (map (\<lambda>i. rev df ! i) [0..<length (rev df)])" by simp
  also have "\<dots> = mset (rev df)" by (simp only: map_nth)
  finally show ?thesis using sort_values_descending[of df argsort] assms by simp
qed

lemma sorted_sort_values:
  assumes "is_argsort (rev (map name_length df)) (argsort (rev (map name_length df)))"
  shows "sorted (rev (map name_length (sort_values argsort False df)))"
proof -
  let ?ix = "argsort (rev (map name_length df))"
  have bound: "\<And>i. i \<in> set ?ix \<Longrightarrow> i < length df"
    using is_argsort_bound[of "rev (map name_length df)" ?ix] assms by simp
  have "map name_length (map (\<lambda>i. rev df ! i) ?ix) = map (\<lambda>i. rev (map name_length df) ! i) ?ix"
    using bound by (simp add: rev_key_nth)
  moreover have "sorted (map (\<lambda>i. rev (map name_length df) ! i) ?ix)"
    using assms by (simp add: is_argsort_def)
  ultimately show ?thesis
    using sort_values_descending[of df argsort] assms
    by (simp add: rev_map[symmetric] del: map_map)
qed

lemma length_top_names:
  assumes "is_argsort (rev (map name_length df)) (argsort (rev (map name_length df)))"
  shows "length (top_names argsort df) = min 10 (total_count df)"
proof -
  have "length (sort_values argsort False df) = length df"
    using mset_sort_values[of df argsort] assms by (metis size_mset)
  then show ?thesis by (simp add: top_names_def head_def total_count_def)
qed

subsection \<open>With a stable index sort\<close>

lemma insort_key_map:
  "map g (insort_key (\<lambda>i. f (g i)) x ys) = insort_key f (g x) (map g ys)"
  by (induction ys) auto

lemma sort_key_map: "map g (sort_key (\<lambda>i. f (g i)) ys) = sort_key f (map g ys)"
  by (induction ys) (auto simp: insort_key_map)

lemma insort_key_cong_set:
  "f x = g x \<Longrightarrow> (\<And>y. y \<in> set ys \<Longrightarrow> f y = g y) \<Longrightarrow> insort_key f x ys = insort_key g x ys"
  by (induction ys) auto

lemma sort_key_cong_set:
  "(\<And>y. y \<in> set ys \<Longrightarrow> f y = g y) \<Longrightarrow> sort_key f ys = sort_key g ys"
proof (induction ys)
  case Nil
  show ?case by simp
next
  case (Cons y ys)
  then have "sort_key f ys = sort_key g ys" by simp
  moreover have "insort_key f y (sort_key g ys) = insort_key g y (sort_key g ys)"
    using Cons.prems by (intro insort_key_cong_set) auto
  ultimately show ?case by simp
qed

lemma stable_argsort_nth:
  "map (\<lambda>i. xs ! i) (stable_argsort (map f xs)) = sort_key f xs"
proof -
  have "sort_key (\<lambda>i. map f xs ! i) [0..<length xs] =
          sort_key (\<lambda>i. f (xs ! i)) [0..<length xs]"
    by (rule sort_key_cong_set) simp
  then have "map (\<lambda>i. xs ! i) (stable_argsort (map f xs)) =
               sort_key f (map (\<lambda>i. xs ! i) [0..<length xs])"
    by (simp add: stable_argsort_def sort_key_map)
  then show ?thesis by (simp only: map_nth)
qed

lemma stable_is_argsort: "is_argsort keys (stable_argsort keys)"
proof -
  have "sort (sort_key (\<lambda>i. keys ! i) [0..<length keys]) = [0..<length keys]"
    by (intro properties_for_sort) simp_all
  then show ?thesis by (simp add: is_argsort_def stable_argsort_def)
qed

lemma top_names_stable: "top_names stable_argsort df = spec_top_n df"
proof -
  have "sort_values stable_argsort False df =
          rev (map (\<lambda>i. rev df ! i) (stable_argsort (map name_length (rev df))))"
    using sort_values_descending[of df stable_argsort] stable_is_argsort by (simp add: rev_map)
  then show ?thesis
    by (simp add: top_names_def head_def spec_top_n_def stable_argsort_nth)
qed

section \<open>The table stays in rowid order\<close>

lemma set_btree_insert:
  "sorted_wrt (<) (map rid t) \<Longrightarrow>
     set (btree_insert r t) = insert r {x \<in> set t. rid x \<noteq> rid r}"
  by (induction t) (auto simp: less_le)

lemma sorted_btree_insert:
  "sorted_wrt (<) (map rid t) \<Longrightarrow> sorted_wrt (<) (map rid (btree_insert r t))"
proof (induction t)
  case Nil
  show ?case by simp
next
  case (Cons x xs)
  then have xs: "sorted_wrt (<) (map rid xs)" by simp
  show ?case
  proof (cases "rid r < rid x")
    case True
    with Cons.prems show ?thesis by auto
  next
    case False
    show ?thesis
    proof (cases "rid r = rid x")
      case True
      with Cons.prems show ?thesis by auto
    next
      case ne: False
      with False have gt: "rid x < rid r" by simp
      have "\<forall>y \<in> set (btree_insert r xs). rid x < rid y"
        using Cons.prems gt by (auto simp: set_btree_insert[OF xs])
      with False ne Cons.IH[OF xs] show ?thesis by simp
    qed
  qed
qed

lemma btree_insert_last:
  "\<forall>x\<in>set t. rid x < rid r \<Longrightarrow> btree_insert r t = t @ [r]"
  by (induction t) auto

text \<open>What one insert does to the table: the row stored, and the rows kept.\<close>

lemma insert_or_replace_Inr:
  assumes "insert_or_replace rnd u t = Inr t'" and "sorted_wrt (<) (map rid t)"
  shows "\<exists>i. (j_id u = Some i \<or> j_id u = None) \<and>
              set t' = insert (mk_row i u) {x \<in> set t. rid x \<noteq> i} \<and>
              sorted_wrt (<) (map rid t')"
proof -
  from assms(1) obtain i where i: "j_id u = Some i \<or> j_id u = None"
    and t': "t' = btree_insert (mk_row i u) t"
    by (auto simp: insert_or_replace_def split: option.splits if_splits)
  have "rid (mk_row i u) = i" by (simp add: mk_row_def)
  with set_btree_insert[OF assms(2), of "mk_row i u"] sorted_btree_insert[OF assms(2), of "mk_row i u"]
    i t' show ?thesis by auto
qed

lemma execute_insert_None:
  assumes "execute_insert rnd u s = (None, s')"
  shows "\<exists>t t'. view s = Some t \<and> insert_or_replace rnd u t = Inr t' \<and>
           s' = s\<lparr> view := Some t', in_txn := True \<rparr>"
  using assms by (auto simp: execute_insert_def split: option.splits sum.splits)

lemma insert_all_ok:
  "insert_all rnd (map Obj b) s = (None, s') \<Longrightarrow> view s = Some t \<Longrightarrow>
   sorted_wrt (<) (map rid t) \<Longrightarrow>
     \<exists>t'. view s' = Some t' \<and> sorted_wrt (<) (map rid t') \<and>
          (\<forall>r\<in>set t'. r \<in> set t \<or>
             (\<exists>u\<in>set b. r = mk_row (rid r) u \<and> (j_id u = None \<or> j_id u = Some (rid r)))) \<and>
          rid ` set t \<subseteq> rid ` set t' \<and>
          (\<forall>u\<in>set b. \<forall>i. j_id u = Some i \<longrightarrow> i \<in> rid ` set t')"
proof (induction b arbitrary: s t)
  case Nil
  then show ?case by auto
next
  case (Cons u us)
  from Cons.prems(1) obtain s1 where
    ex: "execute_insert rnd u s = (None, s1)" and rest: "insert_all rnd (map Obj us) s1 = (None, s')"
    by (auto split: prod.splits option.splits)
  from execute_insert_None[OF ex] Cons.prems(2) obtain t1 where
    ins: "insert_or_replace rnd u t = Inr t1" and v1: "view s1 = Some t1"
    by auto
  from insert_or_replace_Inr[OF ins Cons.prems(3)] obtain i where
    i: "j_id u = Some i \<or> j_id u = None" and
    set1: "set t1 = insert (mk_row i u) {x \<in> set t. rid x \<noteq> i}" and
    sorted1: "sorted_wrt (<) (map rid t1)"
    by auto
  have ridi: "rid (mk_row i u) = i" by (simp add: mk_row_def)
  from Cons.IH[OF rest v1 sorted1] obtain t' where
    t': "view s' = Some t'" "sorted_wrt (<) (map rid t')"
    and from1: "\<forall>r\<in>set t'. r \<in> set t1 \<or>
             (\<exists>u\<in>set us. r = mk_row (rid r) u \<and> (j_id u = None \<or> j_id u = Some (rid r)))"
    and grow: "rid ` set t1 \<subseteq> rid ` set t'"
    and ids: "\<forall>u\<in>set us. \<forall>i. j_id u = Some i \<longrightarrow> i \<in> rid ` set t'"
    by auto
  have a: "\<forall>r\<in>set t'. r \<in> set t \<or>
             (\<exists>w\<in>set (u # us). r = mk_row (rid r) w \<and> (j_id w = None \<or> j_id w = Some (rid r)))"
  proof
    fix r assume "r \<in> set t'"
    with from1 have "r \<in> set t1 \<or>
       (\<exists>u\<in>set us. r = mk_row (rid r) u \<and> (j_id u = None \<or> j_id u = Some (rid r)))" by blast
    then show "r \<in> set t \<or>
             (\<exists>w\<in>set (u # us). r = mk_row (rid r) w \<and> (j_id w = None \<or> j_id w = Some (rid r)))"
    proof
      assume "r \<in> set t1"
      with set1 have "r = mk_row i u \<or> r \<in> set t" by auto
      then show ?thesis using i ridi by auto
    next
      assume "\<exists>u\<in>set us. r = mk_row (rid r) u \<and> (j_id u = None \<or> j_id u = Some (rid r))"
      then show ?thesis by auto
    qed
  qed
  have b: "rid ` set t \<subseteq> rid ` set t1"
  proof
    fix k assume "k \<in> rid ` set t"
    then obtain x where x: "x \<in> set t" "rid x = k" by auto
    show "k \<in> rid ` set t1"
    proof (cases "k = i")
      case True
      with set1 ridi show ?thesis by (metis image_eqI insertI1)
    next
      case False
      with x set1 show ?thesis by auto
    qed
  qed
  have c: "i \<in> rid ` set t1" using set1 ridi by (metis image_eqI insertI1)
  have c': "i \<in> rid ` set t'" using c grow by blast
  have d: "\<forall>w\<in>set (u # us). \<forall>k. j_id w = Some k \<longrightarrow> k \<in> rid ` set t'"
    using ids i c' by auto
  from t' a b grow d show ?case by blast
qed

lemma insert_all_conns: "open_conns (snd (insert_all rnd items s)) = open_conns s"
  by (induction rnd items s rule: insert_all.induct)
     (auto simp: execute_insert_def split: sum.splits option.splits prod.splits)

lemma fresh_view:
  "view (create_table_if_not_exists (drop_table_if_exists (connect s))) = Some []"
  by (simp add: create_table_if_not_exists_def drop_table_if_exists_def connect_def
      autocommit_def)

lemma fresh_conns:
  "open_conns (create_table_if_not_exists (drop_table_if_exists (connect s))) =
     Suc (open_conns s)"
  by (simp add: create_table_if_not_exists_def drop_table_if_exists_def connect_def
      autocommit_def)

lemma replaceAll_records:
  "replaceAll rnd (records b) s =
     (case insert_all rnd (map Obj b)
             (create_table_if_not_exists (drop_table_if_exists (connect s))) of
        (Some e, s3) \<Rightarrow> (Some e, s3)
      | (None, s3) \<Rightarrow> (None, close (commit s3)))"
  by (simp add: replaceAll_def records_def iterate_def Let_def)

lemma replaceAll_ok:
  assumes "replaceAll rnd (records b) s = (None, s1)"
  shows "\<exists>t. disk s1 = Some t \<and> sorted_wrt (<) (map rid t) \<and>
          (\<forall>r\<in>set t. \<exists>u\<in>set b. r = mk_row (rid r) u \<and> (j_id u = None \<or> j_id u = Some (rid r))) \<and>
          (\<forall>u\<in>set b. \<forall>i. j_id u = Some i \<longrightarrow> i \<in> rid ` set t)"
proof -
  let ?s2 = "create_table_if_not_exists (drop_table_if_exists (connect s))"
  from assms obtain s3 where
    ia: "insert_all rnd (map Obj b) ?s2 = (None, s3)" and s1: "s1 = close (commit s3)"
    by (auto simp: replaceAll_records split: prod.splits option.splits)
  have "sorted_wrt (<) (map rid ([]::table))" by simp
  from insert_all_ok[OF ia fresh_view[of s] this] obtain t where
    "view s3 = Some t" "sorted_wrt (<) (map rid t)"
    "\<forall>r\<in>set t. \<exists>u\<in>set b. r = mk_row (rid r) u \<and> (j_id u = None \<or> j_id u = Some (rid r))"
    "\<forall>u\<in>set b. \<forall>i. j_id u = Some i \<longrightarrow> i \<in> rid ` set t"
    by auto
  with s1 show ?thesis by (simp add: close_def commit_def)
qed

lemma loadAll_disk:
  "disk s = Some t \<Longrightarrow> loadAll s = (Inr t, s\<lparr> view := Some t, in_txn := False \<rparr>)"
  by (simp add: loadAll_def connect_def close_def Let_def)

lemma replaceAll_conns:
  "open_conns (snd (replaceAll rnd users s)) =
     (if fst (replaceAll rnd users s) = None then open_conns s else Suc (open_conns s))"
proof (cases "iterate users")
  case (Inl e)
  then show ?thesis by (simp add: replaceAll_def Let_def fresh_conns)
next
  case (Inr items)
  let ?s2 = "create_table_if_not_exists (drop_table_if_exists (connect s))"
  obtain e s3 where ia: "insert_all rnd items ?s2 = (e, s3)" by (cases "insert_all rnd items ?s2")
  have "open_conns s3 = Suc (open_conns s)"
    using insert_all_conns[of rnd items ?s2] ia by (simp add: fresh_conns)
  with ia Inr show ?thesis
    by (cases e) (simp_all add: replaceAll_def Let_def close_def commit_def)
qed

lemma insert_all_succeeds:
  "\<forall>u\<in>set b. \<exists>i. j_id u = Some i \<and> int64_ok i \<Longrightarrow> view s = Some t \<Longrightarrow>
     fst (insert_all rnd (map Obj b) s) = None"
proof (induction b arbitrary: s t)
  case Nil
  show ?case by simp
next
  case (Cons u us)
  from Cons.prems(1) obtain i where i: "j_id u = Some i" "int64_ok i" by auto
  let ?s1 = "s\<lparr> view := Some (btree_insert (mk_row i u) t), in_txn := True \<rparr>"
  have ex: "execute_insert rnd u s = (None, ?s1)"
    using i Cons.prems(2) by (simp add: execute_insert_def insert_or_replace_def)
  have "fst (insert_all rnd (map Obj us) ?s1) = None"
    using Cons.prems(1) by (intro Cons.IH[of ?s1]) auto
  with ex show ?case by simp
qed


lemma insert_all_set:
  assumes "insert_all rnd (map Obj b) s = (None, s')"
    and "\<forall>u\<in>set b. j_id u \<noteq> None" and "distinct (map j_id b)"
    and "view s = Some t" and "sorted_wrt (<) (map rid t)"
  shows "\<exists>t'. view s' = Some t' \<and>
           set t' = {x \<in> set t. Some (rid x) \<notin> j_id ` set b} \<union>
                    (\<lambda>u. mk_row (the (j_id u)) u) ` set b"
  using assms
proof (induction b arbitrary: s t)
  case Nil
  then show ?case by simp
next
  case (Cons u us)
  from Cons.prems(2) obtain i where i: "j_id u = Some i" by auto
  from Cons.prems(1) obtain s1 where
    ex: "execute_insert rnd u s = (None, s1)" and rest: "insert_all rnd (map Obj us) s1 = (None, s')"
    by (auto split: prod.splits option.splits)
  let ?t1 = "btree_insert (mk_row i u) t"
  from execute_insert_None[OF ex] Cons.prems(4) i have v1: "view s1 = Some ?t1"
    by (auto simp: insert_or_replace_def split: if_splits)
  have sorted1: "sorted_wrt (<) (map rid ?t1)"
    using sorted_btree_insert[OF Cons.prems(5)] .
  have set1: "set ?t1 = insert (mk_row i u) {x \<in> set t. rid x \<noteq> i}"
    using set_btree_insert[OF Cons.prems(5), of "mk_row i u"] by (simp add: mk_row_def)
  from Cons.prems(2,3) have p1: "\<forall>u\<in>set us. j_id u \<noteq> None"
    and p2: "distinct (map j_id us)"
    and notin: "Some i \<notin> j_id ` set us" using i by auto
  from Cons.IH[OF rest p1 p2 v1 sorted1] obtain t' where
    r: "view s' = Some t'"
       "set t' = {x \<in> set ?t1. Some (rid x) \<notin> j_id ` set us} \<union>
                 (\<lambda>u. mk_row (the (j_id u)) u) ` set us"
    by auto
  have "rid (mk_row i u) = i" by (simp add: mk_row_def)
  with r(2) set1 notin i
  have "set t' = {x \<in> set t. Some (rid x) \<notin> j_id ` set (u # us)} \<union>
                 (\<lambda>u. mk_row (the (j_id u)) u) ` set (u # us)"
    by auto
  with r(1) show ?case by simp
qed


lemma user_of_mk_row: "j_id u = Some i \<Longrightarrow> user_of_row (mk_row i u) = u"
  by (simp add: user_of_row_def mk_row_def)


text \<open>A batch whose records all have an id, no id twice: the table is the batch by id.\<close>


lemma replaceAll_distinct_set:
  assumes "replaceAll rnd (records b) s = (None, s1)"
    and "\<forall>u\<in>set b. j_id u \<noteq> None" and "distinct (map j_id b)"
  shows "\<exists>t. disk s1 = Some t \<and> sorted_wrt (<) (map rid t) \<and>
           set t = (\<lambda>u. mk_row (the (j_id u)) u) ` set b"
proof -
  let ?s2 = "create_table_if_not_exists (drop_table_if_exists (connect s))"
  from assms(1) obtain s3 where
    ia: "insert_all rnd (map Obj b) ?s2 = (None, s3)" and s1: "s1 = close (commit s3)"
    by (auto simp: replaceAll_records split: prod.splits option.splits)
  have e: "sorted_wrt (<) (map rid ([]::table))" by simp
  from insert_all_set[OF ia assms(2,3) fresh_view[of s] e] obtain t where
    t: "view s3 = Some t" "set t = (\<lambda>u. mk_row (the (j_id u)) u) ` set b" by auto
  from insert_all_ok[OF ia fresh_view[of s] e] t(1) have "sorted_wrt (<) (map rid t)" by auto
  with t s1 show ?thesis by (simp add: close_def commit_def)
qed

lemma table_by_id:
  assumes "sorted_wrt (<) (map rid t)"
    and "set t = (\<lambda>u. mk_row (the (j_id u)) u) ` set b"
    and "\<forall>u\<in>set b. j_id u \<noteq> None" and "distinct (map j_id b)"
  shows "t = sort_key rid (map (\<lambda>u. mk_row (the (j_id u)) u) b)"
proof -
  let ?rows = "map (\<lambda>u. mk_row (the (j_id u)) u) b"
  have rid_rows: "map rid ?rows = map (\<lambda>u. the (j_id u)) b"
    by (simp add: mk_row_def comp_def)
  have "inj_on (\<lambda>u. the (j_id u)) (set b)"
  proof (rule inj_onI)
    fix x y assume "x \<in> set b" "y \<in> set b" "the (j_id x) = the (j_id y)"
    with assms(3) have "j_id x = j_id y" by (metis option.collapse)
    with assms(4) \<open>x \<in> set b\<close> \<open>y \<in> set b\<close> show "x = y"
      by (simp add: distinct_map inj_on_def)
  qed
  with assms(4) have d: "distinct (map rid ?rows)"
    unfolding rid_rows by (simp add: distinct_map)
  have dt: "distinct (map rid t)" and st: "sorted (map rid t)"
    using assms(1) by (simp_all add: strict_sorted_iff)
  have set_eq: "set t = set (sort_key rid ?rows)" using assms(2) by simp
  have inj: "inj_on rid (set t \<union> set (sort_key rid ?rows))"
    using dt set_eq by (simp add: distinct_map)
  have s2: "sorted (map rid (sort_key rid ?rows))" by (rule sorted_sort_key)
  have "mset (map rid (sort_key rid ?rows)) = mset (map rid ?rows)"
    by (simp only: mset_map mset_sort)
  then have d2: "distinct (map rid (sort_key rid ?rows))"
    using d by (metis mset_eq_imp_distinct_iff)
  show ?thesis
    by (rule map_sorted_distinct_set_unique[OF inj st dt s2 d2 set_eq])
qed

lemma replaceAll_distinct:
  assumes "\<forall>u\<in>set b. \<exists>i. j_id u = Some i \<and> int64_ok i" and "distinct (map j_id b)"
  shows "\<exists>s1 t. replaceAll rnd (records b) s = (None, s1) \<and> disk s1 = Some t \<and>
           sorted_wrt (<) (map rid t) \<and> user_of_row ` set t = set b"
proof -
  let ?s2 = "create_table_if_not_exists (drop_table_if_exists (connect s))"
  have "fst (insert_all rnd (map Obj b) ?s2) = None"
    using insert_all_succeeds[OF assms(1) fresh_view[of s]] .
  then have "fst (replaceAll rnd (records b) s) = None"
    by (cases "insert_all rnd (map Obj b) ?s2") (simp add: replaceAll_records)
  then obtain s1 where s1: "replaceAll rnd (records b) s = (None, s1)"
    by (metis prod.collapse)
  from assms(1) have present: "\<forall>u\<in>set b. j_id u \<noteq> None" by auto
  from replaceAll_distinct_set[OF s1 present assms(2)] obtain t where
    t: "disk s1 = Some t" "sorted_wrt (<) (map rid t)"
       "set t = (\<lambda>u. mk_row (the (j_id u)) u) ` set b" by auto
  have "user_of_row ` set t = set b"
  proof -
    have "\<And>u. u \<in> set b \<Longrightarrow> user_of_row (mk_row (the (j_id u)) u) = u"
      using assms(1) by (auto simp: user_of_mk_row)
    then show ?thesis unfolding t(3) by (force simp: image_image)
  qed
  with s1 t show ?thesis by blast
qed


lemma twins_written:
  "replaceAll rnd (records twins) s =
     (None, s\<lparr> disk := Some [mk_row 1 (mk_user 1 ''Bob'' ''b@y.com'')],
               view := Some [mk_row 1 (mk_user 1 ''Bob'' ''b@y.com'')], in_txn := False \<rparr>)"
  by (simp add: twins_def db_defs example_defs)

text \<open>Records without an id are numbered from 1 in the order of the batch.\<close>


lemma insert_all_numbered:
  assumes "\<forall>u\<in>set b. j_id u = None" and "view s = Some t"
    and "map rid t = map int [1..<Suc (length t)]"
    and "int (length t + length b) < 2 ^ 63"
  shows "\<exists>s'. insert_all rnd (map Obj b) s = (None, s') \<and>
           view s' = Some (t @ map (\<lambda>(k, u). mk_row (int k) u) (enumerate (Suc (length t)) b))"
  using assms
proof (induction b arbitrary: s t)
  case Nil
  then show ?case by simp
next
  case (Cons u us)
  let ?i = "int (Suc (length t))"
  have small: "int (length t) < 2 ^ 63 - 1" using Cons.prems(4) by simp
  have nr: "new_rowid rnd t = Some ?i"
  proof (cases "t = []")
    case True
    then show ?thesis by (simp add: new_rowid_def)
  next
    case False
    then have "rid (last t) = last (map rid t)" by (simp add: last_map)
    also have "\<dots> = int (length t)"
      using False unfolding Cons.prems(3) by (simp add: last_map del: upt_Suc) 
    finally show ?thesis using False small by (simp add: new_rowid_def)
  qed
  have below: "\<forall>x\<in>set t. rid x < ?i"
  proof
    fix x assume "x \<in> set t"
    then have "rid x \<in> set (map rid t)" by simp
    then show "rid x < ?i" unfolding Cons.prems(3) by auto
  qed
  let ?t1 = "t @ [mk_row ?i u]"
  let ?s1 = "s\<lparr> view := Some ?t1, in_txn := True \<rparr>"
  have ins: "btree_insert (mk_row ?i u) t = ?t1"
    using below by (intro btree_insert_last) (simp add: mk_row_def)
  have ex: "execute_insert rnd u s = (None, ?s1)"
    using Cons.prems(1,2) nr ins by (simp add: execute_insert_def insert_or_replace_def)
  have rids: "map rid ?t1 = map int [1..<Suc (length ?t1)]"
    using Cons.prems(3) by (simp add: mk_row_def)
  have len: "int (length ?t1 + length us) < 2 ^ 63" using Cons.prems(4) by simp
  from Cons.prems(1) have p: "\<forall>u\<in>set us. j_id u = None" by simp
  from Cons.IH[OF p _ rids len, of ?s1] obtain s' where
    "insert_all rnd (map Obj us) ?s1 = (None, s')"
    "view s' = Some (?t1 @ map (\<lambda>(k, u). mk_row (int k) u) (enumerate (Suc (length ?t1)) us))"
    by auto
  with ex show ?case by simp
qed

section \<open>The end-to-end scenario\<close>

text \<open>
  Three users, two of them at \<open>x.com\<close>: three records, two domains, the counts per domain,
  the lengths 3, 10 and 2 of the names, their mean and the largest of them.
\<close>

lemma scenario:
  "enrich v [mk_row 1 ann, mk_row 2 bob, mk_row 3 cy] = Inr three \<and>
   total_count three = 3 \<and> distinct_domain_count three = 2 \<and>
   domain_counts three = [(''x.com'', 2), (''y.com'', 1)] \<and>
   max_name_length three = Some 10 \<and> mean_name_length v three = Inr (Some 5)"
  by (simp add: enrich_three)
     (simp add: three_def add_columns_def total_count_def distinct_domain_count_def
       domain_counts_def nunique_def value_counts_def unique_def max_name_length_def
       mean_name_length_def max_of_def mean_def)

section \<open>The claims of the specification\<close>

subsection \<open>C1: the length of the name\<close>

text \<open>
  Claim C1, as the code has it: for every record whose name is present, the derived
  \<open>name_length\<close> is the length of the name, under either version of pandas. A missing
  name never gives 0: before pandas 3 its textual representation is the text \<open>None\<close> and
  \<open>name_length\<close> is 4; from pandas 3 on the missing cell stays missing and line 131
  raises \<open>TypeError\<close>.
\<close>

theorem name_length_textual:
  "(name r = Some n \<longrightarrow> (\<exists>x. enrich v [r] = Inr [x] \<and> name_length x = length n)) \<and>
   (name r = None \<longrightarrow>
      (\<exists>x. enrich Pandas2 [r] = Inr [x] \<and> name_length x = 4) \<and>
      enrich Pandas3 [r] = Inl TypeError)"
  by (cases v) (auto simp: enrich_eq astype_str_def add_columns_def)

theorem name_length_textual_witness:
  "(\<exists>x. enrich Pandas3 [mk_row 2 bob] = Inr [x] \<and> name_length x = 10) \<and>
   (\<exists>x. enrich Pandas2 [no_name] = Inr [x] \<and> name_length x = 4) \<and>
   enrich Pandas3 [no_name] = Inl TypeError"
proof -
  have n: "name (mk_row 2 bob) = Some ''Bob Bobson''" by (simp add: example_defs)
  have l: "length ''Bob Bobson'' = 10" by simp
  have m: "name no_name = None" by (simp add: no_name_def)
  from name_length_textual[of "mk_row 2 bob" "''Bob Bobson''" Pandas3] n
  have "\<exists>x. enrich Pandas3 [mk_row 2 bob] = Inr [x] \<and> name_length x = length ''Bob Bobson''"
    by blast
  then have a: "\<exists>x. enrich Pandas3 [mk_row 2 bob] = Inr [x] \<and> name_length x = 10"
    unfolding l .
  from name_length_textual[of no_name] m a show ?thesis by blast
qed

text \<open>
  The claim as stated, \<open>name_length = 0\<close> for a missing name, fails on a row without a name
  under both versions.
\<close>

theorem missing_name_length_counterexample:
  "name no_name = None \<and>
   enrich Pandas2 [no_name] = Inr [add_columns no_name 4 None] \<and>
   name_length (add_columns no_name 4 None) \<noteq> 0 \<and>
   enrich Pandas3 [no_name] = Inl TypeError"
  by (simp add: no_name_def enrich_defs)

subsection \<open>C2: the counts per domain\<close>

text \<open>
  Claim C2, as the code has it: on the frame the enrichment returns, the values of
  \<open>domain_counts\<close> sum to the number of records whose email is a text with an \<open>@\<close>; the
  records without a domain are left out of the counts. The sum is \<open>total_count\<close> when every
  record has a domain. Before pandas 3 the enrichment returns a frame for every input.
\<close>

theorem domain_counts_sum:
  "(enrich v rows = Inr df \<longrightarrow>
      sum_list (map snd (domain_counts df)) =
        length (filter (\<lambda>r. \<exists>e. email r = Some e \<and> CHR ''@'' \<in> set e) rows) \<and>
      ((\<forall>r\<in>set rows. \<exists>e. email r = Some e \<and> CHR ''@'' \<in> set e) \<longrightarrow>
         sum_list (map snd (domain_counts df)) = total_count df)) \<and>
   (\<exists>frame. enrich Pandas2 rows = Inr frame)"
proof -
  have "sum_list (map snd (domain_counts df)) = total_count df"
    if e: "enrich v rows = Inr df"
      and a: "\<forall>r\<in>set rows. \<exists>e. email r = Some e \<and> CHR ''@'' \<in> set e"
  proof -
    from a have "filter (\<lambda>r. \<exists>e. email r = Some e \<and> CHR ''@'' \<in> set e) rows = rows"
      by (intro filter_True) auto
    with sum_domain_counts[OF e] enrich_Inr(3)[OF e] show ?thesis
      by (simp add: total_count_def)
  qed
  with sum_domain_counts[of v rows df] enrich_Pandas2[of rows] show ?thesis by blast
qed

theorem domain_counts_sum_witness:
  "enrich Pandas3 [mk_row 1 ann, mk_row 2 bob, mk_row 3 cy] = Inr three \<and>
   sum_list (map snd (domain_counts three)) = 3 \<and> total_count three = 3"
proof -
  have e: "enrich Pandas3 [mk_row 1 ann, mk_row 2 bob, mk_row 3 cy] = Inr three"
    by (rule enrich_three)
  have h: "\<forall>r\<in>set [mk_row 1 ann, mk_row 2 bob, mk_row 3 cy].
             \<exists>e. email r = Some e \<and> CHR ''@'' \<in> set e"
    by (simp add: example_defs)
  have n: "total_count three = 3" by (simp add: total_count_def three_def)
  from domain_counts_sum[of Pandas3 "[mk_row 1 ann, mk_row 2 bob, mk_row 3 cy]" three] e h
  have "sum_list (map snd (domain_counts three)) = total_count three" by blast
  with e n show ?thesis by simp
qed

text \<open>
  The claim as stated fails on one record whose email has no \<open>@\<close>: the input is not empty,
  the counts are empty and their sum is 0, the total is 1.
\<close>

theorem domain_counts_sum_counterexample:
  "enrich Pandas2 [no_at] = Inr [add_columns no_at 3 None] \<and>
   enrich Pandas3 [no_at] = Inr [add_columns no_at 3 None] \<and>
   [add_columns no_at 3 None] \<noteq> [] \<and>
   sum_list (map snd (domain_counts [add_columns no_at 3 None])) \<noteq>
     total_count [add_columns no_at 3 None]"
  by (simp add: enrich_no_at add_columns_def domain_counts_def value_counts_def unique_def
      total_count_def)

subsection \<open>C3: the number of distinct domains\<close>

text \<open>
  Claim C3, as the code has it: \<open>distinct_domain_count\<close> is the number of distinct
  \<open>email_domain\<close> values that are present; the absent marker is not counted.
\<close>

theorem distinct_domain_count_present:
  "distinct_domain_count df = card (set (map email_domain df) - {None})"
proof -
  have "Some ` set (dropna (map email_domain df)) = set (map email_domain df) - {None}"
    by (rule Some_dropna)
  then have "card (set (map email_domain df) - {None}) =
               card (set (dropna (map email_domain df)))"
    by (metis card_image inj_Some)
  then show ?thesis
    by (simp add: distinct_domain_count_def nunique_def
        distinct_card[OF distinct_unique, symmetric] set_unique)
qed

text \<open>
  The claim as stated fails on one record without a domain: the column holds one distinct
  value, the absent marker, and the count is 0.
\<close>

theorem distinct_domain_count_counterexample:
  "enrich Pandas2 [no_at] = Inr [add_columns no_at 3 None] \<and>
   enrich Pandas3 [no_at] = Inr [add_columns no_at 3 None] \<and>
   card (set (map email_domain [add_columns no_at 3 None])) = 1 \<and>
   distinct_domain_count [add_columns no_at 3 None] = 0"
  by (simp add: enrich_no_at add_columns_def distinct_domain_count_def nunique_def unique_def)

subsection \<open>C4: the domain of the email\<close>

text \<open>
  Claim C4: for every record whose email contains an \<open>@\<close>, \<open>email_domain\<close> is the lower-cased
  text after the last \<open>@\<close>; for every record whose email contains no \<open>@\<close> or is missing,
  \<open>email_domain\<close> is the absent marker. This is so in the frame the enrichment returns and
  for the column of line 132 as such; the enrichment returns a frame before pandas 3 and
  whenever the record has a name.
\<close>

theorem email_domain_last_at:
  "(enrich v [r] = Inr [x] \<longrightarrow>
      (email r = Some e \<and> CHR ''@'' \<in> set e \<longrightarrow>
         email_domain x = Some (lower (after_last (CHR ''@'') e))) \<and>
      (email r = Some e \<and> CHR ''@'' \<notin> set e \<longrightarrow> email_domain x = None) \<and>
      (email r = None \<longrightarrow> email_domain x = None)) \<and>
   (v = Pandas2 \<or> name r \<noteq> None \<longrightarrow> (\<exists>y. enrich v [r] = Inr [y])) \<and>
   email_domain_column v [r] =
     [case email r of
        None \<Rightarrow> None
      | Some a \<Rightarrow>
          if CHR ''@'' \<in> set a then Some (lower (after_last (CHR ''@'') a)) else None]"
proof -
  have col: "email_domain_column v [r] =
     [case email r of
        None \<Rightarrow> None
      | Some a \<Rightarrow>
          if CHR ''@'' \<in> set a then Some (lower (after_last (CHR ''@'') a)) else None]"
    by (simp add: email_domain_column_def domain_of_cell_astype last_str_split
        split: option.splits)
  have "email_domain x = domain_of_cell (astype_str v (email r))" if "enrich v [r] = Inr [x]"
    using enrich_Inr(1)[OF that] by simp
  then have cell: "enrich v [r] = Inr [x] \<longrightarrow>
      (email r = Some e \<and> CHR ''@'' \<in> set e \<longrightarrow>
         email_domain x = Some (lower (after_last (CHR ''@'') e))) \<and>
      (email r = Some e \<and> CHR ''@'' \<notin> set e \<longrightarrow> email_domain x = None) \<and>
      (email r = None \<longrightarrow> email_domain x = None)"
    by (auto simp: domain_of_cell_astype last_str_split)
  have "v = Pandas2 \<or> name r \<noteq> None \<longrightarrow> (\<exists>y. enrich v [r] = Inr [y])"
    by (auto simp: enrich_eq astype_str_missing)
  with col cell show ?thesis by blast
qed

theorem email_domain_last_at_witness:
  "enrich Pandas3 [mk_row 1 (mk_user 1 ''Ann'' ''Ann@x@Mail.COM'')] =
     Inr [add_columns (mk_row 1 (mk_user 1 ''Ann'' ''Ann@x@Mail.COM'')) 3 (Some ''mail.com'')] \<and>
   enrich Pandas3 [no_at] = Inr [add_columns no_at 3 None] \<and>
   enrich Pandas2 [no_name] = Inr [add_columns no_name 4 None] \<and>
   email_domain (add_columns no_name 4 None) = None"
proof -
  let ?r = "mk_row 1 (mk_user 1 ''Ann'' ''Ann@x@Mail.COM'')"
  have l: "lower (after_last (CHR ''@'') ''Ann@x@Mail.COM'') = ''mail.com''"
    by code_simp
  have em: "email ?r = Some ''Ann@x@Mail.COM''" and nm: "name ?r = Some ''Ann''"
    by (simp_all add: example_defs)
  from email_domain_last_at[of Pandas3 ?r _ "''Ann@x@Mail.COM''"] nm
  obtain y where y: "enrich Pandas3 [?r] = Inr [y]" by auto
  with email_domain_last_at[of Pandas3 ?r y "''Ann@x@Mail.COM''"] em l
  have d: "email_domain y = Some ''mail.com''" by simp
  from y have "y = add_columns ?r 3 (domain_of_cell (astype_str Pandas3 (email ?r)))"
    by (auto simp: enrich_eq astype_str_def example_defs eval_nat_numeral)
  with d enrich_Inr(1)[OF y] have a: "enrich Pandas3 [?r] = Inr [add_columns ?r 3 (Some ''mail.com'')]"
    using y by (simp add: add_columns_def)
  have b: "enrich Pandas3 [no_at] = Inr [add_columns no_at 3 None]" by (rule enrich_no_at)
  have c: "enrich Pandas2 [no_name] = Inr [add_columns no_name 4 None]"
    by (simp add: no_name_def enrich_defs)
  have "email no_name = None" by (simp add: no_name_def)
  with email_domain_last_at[of Pandas2 no_name "add_columns no_name 4 None"] c
  have "email_domain (add_columns no_name 4 None) = None" by blast
  with a b c show ?thesis by blast
qed

subsection \<open>C6: writing twice, then reading\<close>

text \<open>
  Claim C6, as the code has it: for every batch in which each record has an id in the
  64-bit range and the ids are pairwise distinct, \<open>replaceAll\<close> twice with the batch and then
  \<open>loadAll\<close> all succeed, and the rows read are, as a set, the records of the batch, with no
  id twice.
\<close>

theorem replaceAll_twice_loadAll:
  assumes "\<forall>u\<in>set b. \<exists>i. j_id u = Some i \<and> int64_ok i" and "distinct (map j_id b)"
  shows "fst (replaceAll rnd (records b) s) = None \<and>
         fst (replaceAll rnd (records b) (snd (replaceAll rnd (records b) s))) = None \<and>
         (\<exists>df. fst (loadAll (snd (replaceAll rnd (records b)
                                  (snd (replaceAll rnd (records b) s))))) = Inr df \<and>
               set (map user_of_row df) = set b \<and> distinct (map rid df))"
proof -
  from replaceAll_distinct[OF assms, of rnd s] obtain s1 where
    s1: "replaceAll rnd (records b) s = (None, s1)" by auto
  from replaceAll_distinct[OF assms, of rnd s1] obtain s2 t where
    s2: "replaceAll rnd (records b) s1 = (None, s2)" "disk s2 = Some t"
        "sorted_wrt (<) (map rid t)" "user_of_row ` set t = set b" by auto
  have "distinct (map rid t)" using s2(3) by (simp add: strict_sorted_iff)
  with s1 s2 loadAll_disk[OF s2(2)] show ?thesis by auto
qed

theorem replaceAll_twice_loadAll_witness:
  "distinct (map j_id [cy, ann, bob]) \<and>
   fst (replaceAll no_random (records [cy, ann, bob]) empty_db) = None \<and>
   (\<exists>df. fst (loadAll (snd (replaceAll no_random (records [cy, ann, bob])
                              (snd (replaceAll no_random (records [cy, ann, bob]) empty_db))))) =
           Inr df \<and>
         set (map user_of_row df) = set [cy, ann, bob] \<and> distinct (map rid df))"
proof -
  have h1: "\<forall>u\<in>set [cy, ann, bob]. \<exists>i. j_id u = Some i \<and> int64_ok i"
    by (simp add: example_defs int64_ok_def)
  have h2: "distinct (map j_id [cy, ann, bob])"
    by (simp add: example_defs)
  from replaceAll_twice_loadAll[OF h1 h2, of no_random empty_db] h1 h2 show ?thesis by blast
qed

text \<open>
  The claim as stated, for every batch, fails on a batch of two different records with the
  same id: the second replaces the first, and the one row read is not the batch.
\<close>

theorem replaceAll_twice_counterexample:
  "fst (loadAll (snd (replaceAll no_random (records twins)
                       (snd (replaceAll no_random (records twins) empty_db))))) =
     Inr [mk_row 1 (mk_user 1 ''Bob'' ''b@y.com'')] \<and>
   set (map user_of_row [mk_row 1 (mk_user 1 ''Bob'' ''b@y.com'')]) \<noteq> set twins"
proof -
  have "fst (loadAll (snd (replaceAll no_random (records twins)
                       (snd (replaceAll no_random (records twins) empty_db))))) =
     Inr [mk_row 1 (mk_user 1 ''Bob'' ''b@y.com'')]"
    by (simp add: twins_written loadAll_def connect_def close_def)
  moreover have "set (map user_of_row [mk_row 1 (mk_user 1 ''Bob'' ''b@y.com'')]) \<noteq> set twins"
    by (simp add: twins_def user_of_row_def example_defs)
  ultimately show ?thesis by blast
qed

subsection \<open>C7: a failed fetch\<close>

text \<open>
  Claim C7, as the code has it: when the request is answered with a status other than 200,
  the run stops with the error message that carries the status code, after one request,
  with the database as it was and nothing of the dashboard on the screen (the page title
  is written before the request). The same holds, with the message of the exception, when
  the request raises or the body is not JSON.
\<close>

theorem fetch_failure_halts:
  "(net 0 = Response status_code b \<and> status_code \<noteq> 200 \<longrightarrow>
      run v rnd net s = \<lparr> ending = Stopped, screen = [Title, Error_status status_code],
                          database = s, requests_made = 1 \<rparr>) \<and>
   (net 0 = RequestException msg \<longrightarrow>
      run v rnd net s = \<lparr> ending = Stopped, screen = [Title, Error_connection msg],
                          database = s, requests_made = 1 \<rparr>) \<and>
   (net 0 = Response 200 (Invalid msg) \<longrightarrow>
      run v rnd net s = \<lparr> ending = Stopped, screen = [Title, Error_connection msg],
                          database = s, requests_made = 1 \<rparr>)"
  by (simp add: run_def)

theorem fetch_failure_halts_witness:
  "run Pandas2 no_random (\<lambda>n. Response 500 (Json (records [ann]))) ann_db =
     \<lparr> ending = Stopped, screen = [Title, Error_status 500], database = ann_db,
       requests_made = 1 \<rparr> \<and>
   run Pandas3 no_random (\<lambda>n. RequestException ''timed out'') ann_db =
     \<lparr> ending = Stopped, screen = [Title, Error_connection ''timed out''],
       database = ann_db, requests_made = 1 \<rparr> \<and>
   run Pandas3 no_random (\<lambda>n. Response 200 (Invalid ''Expecting value'')) ann_db =
     \<lparr> ending = Stopped, screen = [Title, Error_connection ''Expecting value''],
       database = ann_db, requests_made = 1 \<rparr>"
  using fetch_failure_halts[of "\<lambda>n. Response 500 (Json (records [ann]))" 500
      "Json (records [ann])" Pandas2 no_random ann_db]
    fetch_failure_halts[of "\<lambda>n. RequestException ''timed out''" _ _ Pandas3 no_random ann_db
      "''timed out''"]
    fetch_failure_halts[of "\<lambda>n. Response 200 (Invalid ''Expecting value'')" _ _ Pandas3
      no_random ann_db "''Expecting value''"]
  by simp

text \<open>
  The claim as stated covers every failed fetch. It fails on a body that is JSON but not an
  array of objects, the malformed payload of the specification: for an object with the
  key \<open>error\<close>, and for \<open>null\<close>, the script passes the fetch, drops and recreates the table,
  and raises in the loop; the row that was stored is gone.
\<close>

theorem malformed_payload_counterexample:
  "run Pandas2 no_random (\<lambda>n. Response 200 (Json (Object [''error'']))) ann_db =
     \<lparr> ending = Raised AttributeError, screen = [Title],
       database = \<lparr> disk = Some [], view = Some [], in_txn = False, open_conns = 1 \<rparr>,
       requests_made = 1 \<rparr> \<and>
   disk ann_db = Some [mk_row 1 ann] \<and>
   run Pandas2 no_random (\<lambda>n. Response 200 (Json Scalar)) ann_db =
     \<lparr> ending = Raised TypeError, screen = [Title],
       database = \<lparr> disk = Some [], view = Some [], in_txn = False, open_conns = 1 \<rparr>,
       requests_made = 1 \<rparr>"
  by (simp add: run_def replaceAll_def iterate_def connect_def drop_table_if_exists_def
      create_table_if_not_exists_def autocommit_def ann_db_def)

subsection \<open>C8: closing the connection\<close>

text \<open>
  Claim C8, as the code has it: \<open>replaceAll\<close> closes the connection it opened when every
  statement succeeds; when a statement raises, the error leaves \<open>replaceAll\<close> with the
  connection still open.
\<close>

theorem replaceAll_closes_on_success:
  "(fst (replaceAll rnd users s) = None \<longrightarrow>
      open_conns (snd (replaceAll rnd users s)) = open_conns s) \<and>
   (fst (replaceAll rnd users s) \<noteq> None \<longrightarrow>
      open_conns (snd (replaceAll rnd users s)) = Suc (open_conns s))"
  by (simp add: replaceAll_conns)

theorem replaceAll_closes_on_success_witness:
  "fst (replaceAll no_random (records [ann]) empty_db) = None \<and>
   open_conns (snd (replaceAll no_random (records [ann]) empty_db)) = 0 \<and>
   fst (replaceAll no_random (records [ann, too_big]) empty_db) \<noteq> None \<and>
   open_conns (snd (replaceAll no_random (records [ann, too_big]) empty_db)) = 1"
proof -
  have a: "fst (replaceAll no_random (records [ann]) empty_db) = None"
    by (simp add: db_defs example_defs)
  have b: "fst (replaceAll no_random (records [ann, too_big]) empty_db) \<noteq> None"
    by (simp add: db_defs example_defs too_big_def)
  have c: "open_conns empty_db = 0" by (simp add: empty_db_def)
  from a b c replaceAll_closes_on_success[of no_random "records [ann]" empty_db]
    replaceAll_closes_on_success[of no_random "records [ann, too_big]" empty_db]
  show ?thesis by simp
qed

text \<open>
  The claim as stated, closed on every exit path, fails on a batch whose id does not fit
  64 bits: the insert raises \<open>OverflowError\<close> and one connection stays open.
\<close>

theorem replaceAll_leak_counterexample:
  "fst (replaceAll no_random (records [too_big]) empty_db) = Some OverflowError \<and>
   open_conns empty_db = 0 \<and>
   open_conns (snd (replaceAll no_random (records [too_big]) empty_db)) = 1"
  by (simp add: db_defs example_defs too_big_def)

subsection \<open>C9: no records\<close>

lemma run_empty:
  "run v rnd (\<lambda>n. Response 200 (Json (Array []))) s =
     \<lparr> ending = fst (render v []), screen = Title # snd (render v []),
       database = s\<lparr> disk := Some [], view := Some [], in_txn := False \<rparr>,
       requests_made = 1 \<rparr>"
  by (simp add: run_def replaceAll_def iterate_def loadAll_def connect_def
      drop_table_if_exists_def create_table_if_not_exists_def autocommit_def commit_def
      close_def enrich_eq)

text \<open>
  Claim C9, as the code has it: on zero records the enrichment returns the empty frame,
  \<open>total_count\<close> and \<open>distinct_domain_count\<close> are 0, \<open>domain_counts\<close> is empty and the maximum
  of \<open>name_length\<close> is the no-data value. The mean of \<open>name_length\<close> is the no-data value
  before pandas 3, and the run completes; from pandas 3 on the mean raises \<open>TypeError\<close>
  after the first two metrics, and the run ends there. The mean fails on no other frame.
\<close>

theorem aggregate_empty:
  "enrich v [] = Inr [] \<and> total_count [] = 0 \<and> distinct_domain_count [] = 0 \<and>
   domain_counts [] = [] \<and> max_name_length [] = None \<and>
   mean_name_length Pandas2 [] = Inr None \<and>
   mean_name_length Pandas3 [] = Inl TypeError \<and>
   ((\<exists>e. mean_name_length v df = Inl e) \<longleftrightarrow> v = Pandas3 \<and> df = []) \<and>
   render Pandas2 [] =
     (Completed, [Metric_total 0, Metric_domains 0, Metric_name None None, Charts []]) \<and>
   render Pandas3 [] = (Raised TypeError, [Metric_total 0, Metric_domains 0]) \<and>
   ending (run Pandas2 rnd (\<lambda>n. Response 200 (Json (Array []))) s) = Completed \<and>
   ending (run Pandas3 rnd (\<lambda>n. Response 200 (Json (Array []))) s) = Raised TypeError"
proof -
  have stats: "total_count [] = 0 \<and> distinct_domain_count [] = 0 \<and> domain_counts [] = [] \<and>
      max_name_length [] = None"
    by (simp add: total_count_def distinct_domain_count_def nunique_def unique_def
        domain_counts_def value_counts_def max_name_length_def max_of_def)
  have m: "mean_name_length Pandas2 [] = Inr None \<and> mean_name_length Pandas3 [] = Inl TypeError"
    by (simp add: mean_name_length_def mean_def)
  have iff: "(\<exists>e. mean_name_length v df = Inl e) \<longleftrightarrow> v = Pandas3 \<and> df = []"
    by (cases v) (auto simp: mean_name_length_def mean_def)
  have r: "render Pandas2 [] =
     (Completed, [Metric_total 0, Metric_domains 0, Metric_name None None, Charts []]) \<and>
   render Pandas3 [] = (Raised TypeError, [Metric_total 0, Metric_domains 0])"
    using stats m by (simp add: render_def)
  have e: "enrich v [] = Inr []" by (simp add: enrich_eq)
  from stats m iff r e show ?thesis by (simp add: run_empty)
qed

text \<open>
  The claim as stated, no failure on zero records, fails under pandas 3.
\<close>

theorem empty_frame_counterexample:
  "mean_name_length Pandas3 [] = Inl TypeError \<and>
   ending (run Pandas3 no_random (\<lambda>n. Response 200 (Json (Array []))) empty_db) =
     Raised TypeError"
  by (simp add: run_empty render_def mean_name_length_def mean_def)

subsection \<open>C10: the order of the rows read\<close>

lemma nameless_written:
  "replaceAll rnd (records nameless) s =
     (None, s\<lparr> disk := Some (map (\<lambda>(k, u). mk_row (int k) u) (enumerate 1 nameless)),
               view := Some (map (\<lambda>(k, u). mk_row (int k) u) (enumerate 1 nameless)),
               in_txn := False \<rparr>)"
  by (simp add: nameless_def db_defs mk_row_def)

text \<open>
  Claim C10: for every batch that \<open>replaceAll\<close> has written, \<open>loadAll\<close> returns the rows in
  strictly ascending order of \<open>id\<close>, and these rows are the records written: every row
  read is a record of the batch under its own id or, if it has none, under the rowid it
  was given; every id of the batch is the id of a row read; a batch with pairwise distinct
  ids is read as the batch sorted by id; a batch without ids is read in the order of the
  batch, numbered from 1.
\<close>

theorem loadAll_ascending_id:
  assumes "fst (replaceAll rnd (records b) s) = None"
  shows "\<exists>df. fst (loadAll (snd (replaceAll rnd (records b) s))) = Inr df \<and>
           sorted_wrt (<) (map rid df) \<and>
           (\<forall>r\<in>set df. \<exists>u\<in>set b. r = mk_row (rid r) u \<and>
                                 (j_id u = None \<or> j_id u = Some (rid r))) \<and>
           (\<forall>u\<in>set b. \<forall>i. j_id u = Some i \<longrightarrow> i \<in> rid ` set df) \<and>
           ((\<forall>u\<in>set b. j_id u \<noteq> None) \<and> distinct (map j_id b) \<longrightarrow>
              df = sort_key rid (map (\<lambda>u. mk_row (the (j_id u)) u) b)) \<and>
           ((\<forall>u\<in>set b. j_id u = None) \<and> int (length b) < 2 ^ 63 \<longrightarrow>
              df = map (\<lambda>(k, u). mk_row (int k) u) (enumerate 1 b))"
proof -
  let ?s1 = "snd (replaceAll rnd (records b) s)"
  let ?s2 = "create_table_if_not_exists (drop_table_if_exists (connect s))"
  from assms have w: "replaceAll rnd (records b) s = (None, ?s1)"
    by (metis prod.collapse)
  from replaceAll_ok[OF w] obtain t where
    t: "disk ?s1 = Some t" "sorted_wrt (<) (map rid t)"
       "\<forall>r\<in>set t. \<exists>u\<in>set b. r = mk_row (rid r) u \<and> (j_id u = None \<or> j_id u = Some (rid r))"
       "\<forall>u\<in>set b. \<forall>i. j_id u = Some i \<longrightarrow> i \<in> rid ` set t"
    by auto
  have load: "fst (loadAll ?s1) = Inr t" using loadAll_disk[OF t(1)] by simp
  have by_id: "t = sort_key rid (map (\<lambda>u. mk_row (the (j_id u)) u) b)"
    if p: "\<forall>u\<in>set b. j_id u \<noteq> None" and d: "distinct (map j_id b)"
  proof -
    from replaceAll_distinct_set[OF w p d] t(1) have
      "set t = (\<lambda>u. mk_row (the (j_id u)) u) ` set b" by auto
    from table_by_id[OF t(2) this p d] show ?thesis .
  qed
  have numbered: "t = map (\<lambda>(k, u). mk_row (int k) u) (enumerate 1 b)"
    if n: "\<forall>u\<in>set b. j_id u = None" and l: "int (length b) < 2 ^ 63"
  proof -
    have "map rid ([]::table) = map int [1..<Suc (length ([]::table))]" by simp
    moreover have "int (length ([]::table) + length b) < 2 ^ 63" using l by simp
    ultimately obtain s3 where
      s3: "insert_all rnd (map Obj b) ?s2 = (None, s3)"
          "view s3 = Some ([] @ map (\<lambda>(k, u). mk_row (int k) u)
                                  (enumerate (Suc (length ([]::table))) b))"
      using insert_all_numbered[OF n fresh_view[of s]] by blast
    from s3(1) have "replaceAll rnd (records b) s = (None, close (commit s3))"
      by (simp add: replaceAll_records)
    with w have "?s1 = close (commit s3)" by simp
    with s3(2) t(1) show ?thesis by (simp add: close_def commit_def)
  qed
  from load t by_id numbered show ?thesis by blast
qed

theorem loadAll_ascending_id_witness:
  "fst (replaceAll no_random (records [cy, ann, bob]) empty_db) = None \<and>
   fst (loadAll (snd (replaceAll no_random (records [cy, ann, bob]) empty_db))) =
     Inr [mk_row 1 ann, mk_row 2 bob, mk_row 3 cy] \<and>
   sort_key rid (map (\<lambda>u. mk_row (the (j_id u)) u) [cy, ann, bob]) =
     [mk_row 1 ann, mk_row 2 bob, mk_row 3 cy] \<and>
   fst (replaceAll no_random (records nameless) empty_db) = None \<and>
   fst (loadAll (snd (replaceAll no_random (records nameless) empty_db))) =
     Inr (map (\<lambda>(k, u). mk_row (int k) u) (enumerate 1 nameless))"
proof -
  have h: "fst (replaceAll no_random (records [cy, ann, bob]) empty_db) = None"
    by (simp add: db_defs example_defs)
  have p: "(\<forall>u\<in>set [cy, ann, bob]. j_id u \<noteq> None) \<and> distinct (map j_id [cy, ann, bob])"
    by (simp add: example_defs)
  have k: "sort_key rid (map (\<lambda>u. mk_row (the (j_id u)) u) [cy, ann, bob]) =
     [mk_row 1 ann, mk_row 2 bob, mk_row 3 cy]"
    by (simp add: example_defs)
  from loadAll_ascending_id[OF h] p k
  have l: "fst (loadAll (snd (replaceAll no_random (records [cy, ann, bob]) empty_db))) =
     Inr [mk_row 1 ann, mk_row 2 bob, mk_row 3 cy]"
    by auto
  have h2: "fst (replaceAll no_random (records nameless) empty_db) = None"
    by (simp add: nameless_written)
  have p2: "(\<forall>u\<in>set nameless. j_id u = None) \<and> int (length nameless) < 2 ^ 63"
    by (simp add: nameless_def)
  from loadAll_ascending_id[OF h2] p2
  have l2: "fst (loadAll (snd (replaceAll no_random (records nameless) empty_db))) =
     Inr (map (\<lambda>(k, u). mk_row (int k) u) (enumerate 1 nameless))"
    by auto
  from h l k h2 l2 show ?thesis by blast
qed

end
